theory Spec2Isabelle
  imports Main "HOL-Library.AList"
begin

section \<open>The disk cache of package stash\<close>

text \<open>
  A shallow embedding of the Go package \<^verbatim>\<open>stash\<close>: the cache index of
  \<^verbatim>\<open>stash.go\<close> (New, Warmup, Put, PutReader, PutFile, Get, validate, evictLast,
  addMeta), the storage helpers of \<^verbatim>\<open>file.go\<close> (writeFile, filesize, escape) and
  the codec adapter of \<^verbatim>\<open>deflate.go\<close>.

  Go's \<^verbatim>\<open>error\<close> result is an \<open>error option\<close> (\<open>None\<close> is \<^verbatim>\<open>nil\<close>), a result
  with a value is a sum with the error on the left. The mutated receiver \<^verbatim>\<open>*Cache\<close> and
  the file system are passed in and returned. The lock of the cache is not modelled: every
  operation is one atomic step.

  The sizes and counters are \<^verbatim>\<open>int64\<close> in the source and \<open>int\<close> here, without
  wrap-around. They hold sums of file sizes and numbers of files: for a byte budget below
  \<open>2 ^ 62\<close> and a capacity below \<open>2 ^ 63 - 1\<close> every value that the operations compute
  from a state within its budget lies in the range of \<^verbatim>\<open>int64\<close> (lemma
  \<open>counters_in_int64\<close>), so the two agree there.
\<close>

subsection \<open>Errors\<close>

text \<open>The failures of the operating system that the model tells apart.\<close>

datatype os_error = NotExist | Denied | IsDir | CopyFailed

text \<open>
  Modelled from the spec: the error values \<^verbatim>\<open>ErrBadDir\<close>, \<^verbatim>\<open>ErrBadSize\<close>,
  \<^verbatim>\<open>ErrBadCap\<close>, \<^verbatim>\<open>ErrNotFound\<close>, \<^verbatim>\<open>ErrTooLarge\<close> and the struct
  \<^verbatim>\<open>FileError{Dir, Key, Err}\<close> are declared in a file of the package that is not among
  the sources; the spec names them bad directory, bad size, bad capacity, not-found,
  too-large and the I/O error wrapping path, key and the underlying failure.
\<close>

datatype error =
    ErrBadDir
  | ErrBadSize
  | ErrBadCap
  | ErrNotFound
  | ErrTooLarge
  | OsError os_error
  | FileError string string error

subsection \<open>The file system\<close>

type_synonym bytes = string

text \<open>
  The files are an association list from path to content, in directory-listing order. Three
  sets say where the operating system refuses an operation although the file is there
  (permissions, read-only directories): they make the failures of \<^verbatim>\<open>os.Create\<close>,
  \<^verbatim>\<open>os.Remove\<close>, \<^verbatim>\<open>os.Open\<close> and \<^verbatim>\<open>Readdir\<close> branches of the model.
\<close>

record disk =
  files :: "(string \<times> bytes) list"
  deny_create :: "string set"
  deny_remove :: "string set"
  deny_open :: "string set"

text \<open>The part of a path after its last separator.\<close>

definition last_elem :: "string \<Rightarrow> string" where
  "last_elem p = rev (takeWhile (\<lambda>c. c \<noteq> CHR ''/'') (rev p))"

text \<open>
  \<^verbatim>\<open>filepath.Base\<close>: the last element of the path once trailing separators are
  dropped; \<open>''.''\<close> for the empty path and \<open>''/''\<close> for a path of separators only.
\<close>

definition filepath_Base :: "string \<Rightarrow> string" where
  "filepath_Base p =
     (if p = [] then ''.''
      else if last_elem (rev (dropWhile (\<lambda>c. c = CHR ''/'') (rev p))) = [] then ''/''
      else last_elem (rev (dropWhile (\<lambda>c. c = CHR ''/'') (rev p))))"

text \<open>
  \<^verbatim>\<open>filepath.Join(dir, name)\<close>. Join also cleans the path; for a name without a
  separator that only matters for the names \<open>''''\<close>, \<open>''.''\<close> and \<open>''..''\<close>, where the result
  is a directory. \<open>os_Create\<close> fails on exactly those paths.
\<close>

definition filepath_Join :: "string \<Rightarrow> string \<Rightarrow> string" where
  "filepath_Join d name = d @ ''/'' @ name"

definition names_directory :: "string \<Rightarrow> bool" where
  "names_directory p = (last_elem p = '''' \<or> last_elem p = ''.'' \<or> last_elem p = ''..'')"

text \<open>\<^verbatim>\<open>os.Create\<close>: creates the file or truncates it.\<close>

definition os_Create :: "string \<Rightarrow> disk \<Rightarrow> os_error option \<times> disk" where
  "os_Create p d =
     (if names_directory p then (Some IsDir, d)
      else if p \<in> deny_create d then (Some Denied, d)
      else (None, d\<lparr>files := AList.update p [] (files d)\<rparr>))"

text \<open>What an open file holds once the bytes \<open>bs\<close> have been written to it.\<close>

definition write_bytes :: "string \<Rightarrow> bytes \<Rightarrow> disk \<Rightarrow> disk" where
  "write_bytes p bs d = d\<lparr>files := AList.update p bs (files d)\<rparr>"

text \<open>\<^verbatim>\<open>os.Remove\<close>: an absent file is an error, as is a refused deletion.\<close>

definition os_Remove :: "string \<Rightarrow> disk \<Rightarrow> os_error option \<times> disk" where
  "os_Remove p d =
     (case map_of (files d) p of
        None \<Rightarrow> (Some NotExist, d)
      | Some bs \<Rightarrow>
          if p \<in> deny_remove d then (Some Denied, d)
          else (None, d\<lparr>files := AList.delete p (files d)\<rparr>))"

text \<open>\<^verbatim>\<open>os.Open\<close> followed by reading to the end.\<close>

definition os_Open :: "string \<Rightarrow> disk \<Rightarrow> os_error + bytes" where
  "os_Open p d =
     (case map_of (files d) p of
        None \<Rightarrow> Inl NotExist
      | Some bs \<Rightarrow> if p \<in> deny_open d then Inl Denied else Inr bs)"

definition os_Stat :: "string \<Rightarrow> disk \<Rightarrow> os_error + int" where
  "os_Stat p d =
     (case map_of (files d) p of
        None \<Rightarrow> Inl NotExist
      | Some bs \<Rightarrow> Inr (int (length bs)))"

definition os_Rename :: "string \<Rightarrow> string \<Rightarrow> disk \<Rightarrow> os_error option \<times> disk" where
  "os_Rename src dst d =
     (case map_of (files d) src of
        None \<Rightarrow> (Some NotExist, d)
      | Some bs \<Rightarrow>
          if names_directory dst then (Some IsDir, d)
          else if src \<in> deny_remove d \<or> dst \<in> deny_create d then (Some Denied, d)
          else (None, d\<lparr>files := AList.update dst bs (AList.delete src (files d))\<rparr>))"

text \<open>
  \<^verbatim>\<open>os.Open(dir)\<close> and \<^verbatim>\<open>Readdir(-1)\<close>: the names and sizes of the files directly in
  the directory.
\<close>

definition in_dir :: "string \<Rightarrow> string \<Rightarrow> bool" where
  "in_dir d p =
     (take (length d + 1) p = d @ ''/'' \<and> drop (length d + 1) p \<noteq> []
      \<and> CHR ''/'' \<notin> set (drop (length d + 1) p))"

definition Readdir :: "string \<Rightarrow> disk \<Rightarrow> os_error + (string \<times> int) list" where
  "Readdir d dk =
     (if d \<in> deny_open dk then Inl Denied
      else Inr (map (\<lambda>(p, bs). (drop (length d + 1) p, int (length bs)))
                 (filter (\<lambda>(p, bs). in_dir d p) (files dk))))"

subsection \<open>file.go and deflate.go\<close>

text \<open>
  \<^verbatim>\<open>url.QueryEscape\<close>: letters, digits and \<^verbatim>\<open>-_.~\<close> stay, a space becomes \<^verbatim>\<open>+\<close>,
  every other byte becomes \<^verbatim>\<open>%XX\<close> in upper-case hexadecimal.
\<close>

definition unreserved :: "char \<Rightarrow> bool" where
  "unreserved c =
     (c \<in> set ''abcdefghijklmnopqrstuvwxyzABCDEFGHIJKLMNOPQRSTUVWXYZ0123456789-_.~'')"

definition upperhex :: "nat \<Rightarrow> char" where
  "upperhex n = ''0123456789ABCDEF'' ! (n mod 16)"

definition escape_byte :: "char \<Rightarrow> string" where
  "escape_byte c =
     (if unreserved c then [c]
      else if c = CHR '' '' then ''+''
      else [CHR ''%'', upperhex (of_char c div 16), upperhex (of_char c)])"

definition escape :: "string \<Rightarrow> string" where
  "escape v = concat (map escape_byte v)"

text \<open>
  The lz4 library behind \<^verbatim>\<open>NewDeflateWriter\<close> and \<^verbatim>\<open>NewDeflateReader\<close> is a
  parameter: what the writer leaves in the file for an input, and what the reader yields
  for a file.
\<close>

record codec =
  compress :: "bytes \<Rightarrow> bytes"
  decompress :: "bytes \<Rightarrow> bytes"

text \<open>
  An \<^verbatim>\<open>io.Reader\<close>: the bytes it yields, and whether it then ends with an error instead
  of \<^verbatim>\<open>EOF\<close>.
\<close>

record reader =
  r_bytes :: bytes
  r_err :: "os_error option"

text \<open>
  \<^verbatim>\<open>writeFile\<close>. \<^verbatim>\<open>io.Copy(dst, src)\<close> returns the number of bytes copied from
  \<^verbatim>\<open>src\<close>, with and without the compressing writer as \<^verbatim>\<open>dst\<close>.
\<close>

definition writeFile ::
  "codec \<Rightarrow> string \<Rightarrow> string \<Rightarrow> reader \<Rightarrow> bool \<Rightarrow> disk \<Rightarrow> (error + string \<times> int) \<times> disk" where
  "writeFile z d key r deflate dk =
     (let path = filepath_Join d key in
      case os_Create path dk of
        (Some e, dk1) \<Rightarrow> (Inl (FileError d key (OsError e)), dk1)
      | (None, dk1) \<Rightarrow>
          let dk2 = write_bytes path
                      (if deflate then compress z (r_bytes r) else r_bytes r) dk1 in
          (case r_err r of
             Some e \<Rightarrow> (Inl (FileError d key (OsError e)), dk2)
           | None \<Rightarrow> (Inr (path, int (length (r_bytes r))), dk2)))"

definition filesize :: "string \<Rightarrow> disk \<Rightarrow> error + int" where
  "filesize p dk =
     (case os_Stat p dk of
        Inl e \<Rightarrow> Inl (FileError p (filepath_Base p) (OsError e))
      | Inr n \<Rightarrow> Inr n)"

subsection \<open>The cache\<close>

record meta =
  Key :: string
  Size :: int
  Path :: string

text \<open>
  The fields of \<^verbatim>\<open>Cache\<close>; \<^verbatim>\<open>size\<close>, \<^verbatim>\<open>list\<close> and \<^verbatim>\<open>m\<close> carry a suffix. The
  front of the list is its head. A list element is identified with the \<^verbatim>\<open>Meta\<close> it
  holds, so the map sends a key to that value.
\<close>

record cache =
  dir :: string
  size_c :: int
  cap :: int
  sizeUsed :: int
  capUsed :: int
  list_c :: "meta list"
  m_c :: "string \<rightharpoonup> meta"
  useDeflate :: bool

definition validDir :: "string \<Rightarrow> bool" where
  "validDir d = (d \<noteq> '''')"

definition trim_right_sep :: "string \<Rightarrow> string" where
  "trim_right_sep d = rev (dropWhile (\<lambda>c. c = CHR ''/'') (rev d))"

definition New :: "string \<Rightarrow> int \<Rightarrow> int \<Rightarrow> bool \<Rightarrow> error + cache" where
  "New d sz cp deflate =
     (if \<not> validDir d then Inl ErrBadDir
      else if sz \<le> 0 then Inl ErrBadSize
      else if cp \<le> 0 then Inl ErrBadCap
      else Inr \<lparr>dir = trim_right_sep d, size_c = sz, cap = cp, sizeUsed = 0, capUsed = 0,
                list_c = [], m_c = Map.empty, useDeflate = deflate\<rparr>)"

text \<open>\<^verbatim>\<open>addMeta\<close>.\<close>

definition addMeta :: "string \<Rightarrow> string \<Rightarrow> int \<Rightarrow> cache \<Rightarrow> cache" where
  "addMeta key path len c =
     (let c1 = c\<lparr>sizeUsed := sizeUsed c + len, capUsed := capUsed c + 1\<rparr>;
          c2 = (case m_c c1 key of
                  Some item \<Rightarrow> c1\<lparr>list_c := remove1 item (list_c c1)\<rparr>
                | None \<Rightarrow> c1);
          item = \<lparr>Key = key, Size = len, Path = path\<rparr>
      in c2\<lparr>list_c := item # list_c c2, m_c := (m_c c2)(key \<mapsto> item)\<rparr>)"

text \<open>\<^verbatim>\<open>evictLast\<close>.\<close>

definition evictLast :: "cache \<Rightarrow> disk \<Rightarrow> error option \<times> cache \<times> disk" where
  "evictLast c dk =
     (if list_c c = [] then (None, c, dk)
      else
        let item = last (list_c c) in
        case os_Remove (Path item) dk of
          (None, dk1) \<Rightarrow>
            (None,
             c\<lparr>sizeUsed := sizeUsed c - Size item, capUsed := capUsed c - 1,
               m_c := (m_c c)(Key item := None), list_c := butlast (list_c c)\<rparr>,
             dk1)
        | (Some e, dk1) \<Rightarrow> (Some (OsError e), c, dk1))"

text \<open>
  The loop \<^verbatim>\<open>for n+c.sizeUsed > c.size\<close> of \<^verbatim>\<open>validate\<close>. The first argument bounds
  the number of iterations; \<open>None\<close> says that the bound was reached with the condition still
  true.
\<close>

fun evict_loop :: "nat \<Rightarrow> int \<Rightarrow> cache \<Rightarrow> disk \<Rightarrow> (error option \<times> cache \<times> disk) option" where
  "evict_loop 0 n c dk =
     (if n + sizeUsed c > size_c c then None else Some (None, c, dk))"
| "evict_loop (Suc fuel) n c dk =
     (if n + sizeUsed c > size_c c then
        (case evictLast c dk of
           (Some e, c1, dk1) \<Rightarrow> Some (Some e, c1, dk1)
         | (None, c1, dk1) \<Rightarrow> evict_loop fuel n c1 dk1)
      else Some (None, c, dk))"

text \<open>\<^verbatim>\<open>validate\<close>.\<close>

definition validate ::
  "nat \<Rightarrow> string \<Rightarrow> int \<Rightarrow> cache \<Rightarrow> disk \<Rightarrow> (error option \<times> cache \<times> disk) option" where
  "validate fuel path n c dk =
     (if n > size_c c then
        Some (Some (FileError (dir c) '''' ErrTooLarge), c, snd (os_Remove path dk))
      else
        case evict_loop fuel n c dk of
          None \<Rightarrow> None
        | Some (Some e, c1, dk1) \<Rightarrow> Some (Some e, c1, dk1)
        | Some (None, c1, dk1) \<Rightarrow>
            if capUsed c1 + 1 > cap c1 then Some (evictLast c1 dk1)
            else Some (None, c1, dk1))"

text \<open>\<^verbatim>\<open>PutReader\<close> and \<^verbatim>\<open>Put\<close>.\<close>

definition PutReader ::
  "nat \<Rightarrow> codec \<Rightarrow> string \<Rightarrow> reader \<Rightarrow> cache \<Rightarrow> disk \<Rightarrow> (error option \<times> cache \<times> disk) option" where
  "PutReader fuel z key r c dk =
     (case writeFile z (dir c) (escape key) r (useDeflate c) dk of
        (Inl e, dk1) \<Rightarrow> Some (Some e, c, dk1)
      | (Inr (path, n), dk1) \<Rightarrow>
          (case validate fuel path n c dk1 of
             None \<Rightarrow> None
           | Some (Some e, c1, dk2) \<Rightarrow> Some (Some e, c1, dk2)
           | Some (None, c1, dk2) \<Rightarrow> Some (None, addMeta (escape key) path n c1, dk2)))"

definition Put ::
  "nat \<Rightarrow> codec \<Rightarrow> string \<Rightarrow> bytes \<Rightarrow> cache \<Rightarrow> disk \<Rightarrow> (error option \<times> cache \<times> disk) option" where
  "Put fuel z key val c dk = PutReader fuel z key \<lparr>r_bytes = val, r_err = None\<rparr> c dk"

text \<open>
  \<^verbatim>\<open>PutFile\<close>. With compression the deferred \<^verbatim>\<open>Close\<close> of the lz4 writer runs when
  the function returns; the file is given its final content at the copy, which leaves the
  same disk. Reading a file that was opened does not fail in the model, so the copy between
  the two files has no error branch of its own.
\<close>

definition PutFile ::
  "nat \<Rightarrow> codec \<Rightarrow> string \<Rightarrow> string \<Rightarrow> cache \<Rightarrow> disk \<Rightarrow> (error option \<times> cache \<times> disk) option" where
  "PutFile fuel z key srcpath c dk =
     (case filesize srcpath dk of
        Inl e \<Rightarrow> Some (Some e, c, dk)
      | Inr n0 \<Rightarrow>
          let path = filepath_Join (dir c) (escape key);
              admit = (\<lambda>n dk1.
                 case validate fuel path n c dk1 of
                   None \<Rightarrow> None
                 | Some (Some e, c1, dk2) \<Rightarrow> Some (Some e, c1, dk2)
                 | Some (None, c1, dk2) \<Rightarrow> Some (None, addMeta (escape key) path n c1, dk2))
          in
          if useDeflate c then
            (case os_Create path dk of
               (Some e, dk1) \<Rightarrow> Some (Some (OsError e), c, dk1)
             | (None, dk1) \<Rightarrow>
                 (case os_Open srcpath dk1 of
                    Inl e \<Rightarrow> Some (Some (OsError e), c, dk1)
                  | Inr bs \<Rightarrow>
                      admit (int (length bs))
                        (snd (os_Remove srcpath (write_bytes path (compress z bs) dk1)))))
          else
            (case os_Rename srcpath path dk of
               (Some e, dk1) \<Rightarrow> Some (Some (OsError e), c, dk1)
             | (None, dk1) \<Rightarrow> admit n0 dk1))"

text \<open>
  \<^verbatim>\<open>Get\<close>. The returned stream is given by the bytes that reading it to the end yields.
  \<^verbatim>\<open>MoveToFront\<close> leaves the list alone when the element is not in it.
\<close>

definition MoveToFront :: "meta \<Rightarrow> meta list \<Rightarrow> meta list" where
  "MoveToFront item xs = (if item \<in> set xs then item # remove1 item xs else xs)"

definition Get :: "codec \<Rightarrow> string \<Rightarrow> cache \<Rightarrow> disk \<Rightarrow> (error + bytes) \<times> cache" where
  "Get z key c dk =
     (case m_c c (escape key) of
        Some item \<Rightarrow>
          let c1 = c\<lparr>list_c := MoveToFront item (list_c c)\<rparr> in
          (case os_Open (Path item) dk of
             Inl e \<Rightarrow> (Inl (OsError e), c1)
           | Inr bs \<Rightarrow> (Inr (if useDeflate c then decompress z bs else bs), c1))
      | None \<Rightarrow> (Inl ErrNotFound, c))"

text \<open>\<^verbatim>\<open>Warmup\<close>.\<close>

definition Warmup :: "cache \<Rightarrow> disk \<Rightarrow> error option \<times> cache" where
  "Warmup c dk =
     (case Readdir (dir c) dk of
        Inl e \<Rightarrow> (Some (OsError e), c)
      | Inr fileInfo \<Rightarrow>
          (None,
           foldl (\<lambda>c1 (name, sz). addMeta name (filepath_Join (dir c1) name) sz c1)
             c fileInfo))"

text \<open>A sequence of \<^verbatim>\<open>Put\<close> calls, each with its own bound, with the results in order.\<close>

fun Puts ::
  "nat \<Rightarrow> codec \<Rightarrow> (string \<times> bytes) list \<Rightarrow> cache \<Rightarrow> disk
     \<Rightarrow> (error option list \<times> cache \<times> disk) option" where
  "Puts fuel z [] c dk = Some ([], c, dk)"
| "Puts fuel z ((k, v) # ops) c dk =
     (case Put fuel z k v c dk of
        None \<Rightarrow> None
      | Some (e, c1, dk1) \<Rightarrow>
          (case Puts fuel z ops c1 dk1 of
             None \<Rightarrow> None
           | Some (es, c2, dk2) \<Rightarrow> Some (e # es, c2, dk2)))"

subsection \<open>Predicates and concrete states used in the statements\<close>

text \<open>
  The budget invariant: the counters dominate the index and stay within the configured
  limits, and the count exceeds the number of entries by less than the capacity.
\<close>

definition within_budget :: "cache \<Rightarrow> bool" where
  "within_budget c =
     (list_all (\<lambda>e. 0 \<le> Size e) (list_c c)
      \<and> sum_list (map Size (list_c c)) \<le> sizeUsed c
      \<and> sizeUsed c \<le> size_c c
      \<and> int (length (list_c c)) \<le> capUsed c
      \<and> capUsed c \<le> cap c
      \<and> capUsed c < cap c + int (length (list_c c)))"

text \<open>The range of \<^verbatim>\<open>int64\<close>.\<close>

definition in_int64 :: "int \<Rightarrow> bool" where
  "in_int64 x = (- (2 ^ 63) \<le> x \<and> x < 2 ^ 63)"

text \<open>The counters are the sum of the sizes and the number of the entries.\<close>

definition counters_exact :: "cache \<Rightarrow> bool" where
  "counters_exact c =
     (sizeUsed c = sum_list (map Size (list_c c)) \<and> capUsed c = int (length (list_c c))
      \<and> list_all (\<lambda>e. 0 \<le> Size e) (list_c c))"


text \<open>
  A stand-in for lz4 in the concrete runs: the writer puts a four-byte frame marker before
  the input, the reader strips it. The two are inverse, and the stored length differs from
  the input length, as with any framed format.
\<close>

definition framing_codec :: codec where
  "framing_codec = \<lparr>compress = (\<lambda>v. ''LZ4!'' @ v), decompress = drop 4\<rparr>"

text \<open>An empty disk that refuses nothing.\<close>

definition disk0 :: disk where
  "disk0 = \<lparr>files = [], deny_create = {}, deny_remove = {}, deny_open = {}\<rparr>"

text \<open>The cache that \<^verbatim>\<open>New("d", 10, 40, deflate)\<close> returns.\<close>

definition cache0 :: "bool \<Rightarrow> cache" where
  "cache0 deflate =
     \<lparr>dir = ''d'', size_c = 10, cap = 40, sizeUsed = 0, capUsed = 0,
      list_c = [], m_c = Map.empty, useDeflate = deflate\<rparr>"

text \<open>A cache that tracks the one entry \<open>a\<close> of three bytes, and the disk that holds it.\<close>

definition cache1 :: cache where
  "cache1 =
     \<lparr>dir = ''d'', size_c = 10, cap = 40, sizeUsed = 3, capUsed = 1,
      list_c = [\<lparr>Key = ''a'', Size = 3, Path = ''d/a''\<rparr>],
      m_c = [''a'' \<mapsto> \<lparr>Key = ''a'', Size = 3, Path = ''d/a''\<rparr>], useDeflate = False\<rparr>"

definition disk1 :: disk where
  "disk1 = \<lparr>files = [(''d/a'', ''abc'')], deny_create = {}, deny_remove = {}, deny_open = {}\<rparr>"

section \<open>Properties\<close>

lemmas os_defs = last_elem_def filepath_Base_def filepath_Join_def names_directory_def os_Create_def write_bytes_def
  os_Remove_def os_Open_def os_Stat_def os_Rename_def in_dir_def Readdir_def

lemmas escape_defs = unreserved_def upperhex_def escape_byte_def escape_def

lemmas cache_defs = writeFile_def filesize_def validDir_def trim_right_sep_def New_def addMeta_def
  evictLast_def validate_def PutReader_def Put_def PutFile_def MoveToFront_def Get_def Warmup_def

lemmas concrete_defs = framing_codec_def disk0_def cache0_def cache1_def disk1_def

lemmas eval_defs = os_defs escape_defs cache_defs concrete_defs Let_def

subsection \<open>The file system and the key mapping\<close>

lemma os_Remove_gone: "os_Remove p dk = (None, dk1) \<Longrightarrow> map_of (files dk1) p = None"
  by (auto simp: os_Remove_def delete_conv' split: option.splits if_splits)

lemma os_Remove_failed: "os_Remove p dk = (Some e, dk1) \<Longrightarrow> dk1 = dk"
  by (auto simp: os_Remove_def split: option.splits if_splits)

lemma os_Remove_result:
  "snd (os_Remove p dk) =
     (if map_of (files dk) p = None \<or> p \<in> deny_remove dk then dk
      else dk\<lparr>files := AList.delete p (files dk)\<rparr>)"
  by (auto simp: os_Remove_def split: option.splits)







text \<open>What \<^verbatim>\<open>writeFile\<close> returns and leaves on disk when it succeeds.\<close>

lemma writeFile_size:
  "writeFile z d key r deflate dk = (Inr (path, n), dk1) \<Longrightarrow>
   n = int (length (r_bytes r)) \<and> path = filepath_Join d key \<and>
   map_of (files dk1) path = Some (if deflate then compress z (r_bytes r) else r_bytes r)"
  by (auto simp: writeFile_def Let_def write_bytes_def update_conv'
      split: prod.splits option.splits)

lemma os_Rename_moves:
  "os_Rename src dst dk = (None, dk2) \<Longrightarrow> os_Stat src dk = Inr n \<Longrightarrow> os_Stat dst dk2 = Inr n"
  by (auto simp: os_Rename_def os_Stat_def update_conv' split: option.splits if_splits)

lemma writeFile_plain_Stat:
  "writeFile z d key r False dk = (Inr (path, n), dk1) \<Longrightarrow> os_Stat path dk1 = Inr n"
  by (auto simp: os_Stat_def dest: writeFile_size)

lemma New_cache0: "New ''d'' 10 40 deflate = Inr (cache0 deflate)"
  by (simp add: eval_defs)

subsection \<open>The budget invariant\<close>

lemma New_within_budget:
  "New d sz cp deflate = Inr c \<Longrightarrow> within_budget c \<and> size_c c = sz \<and> cap c = cp"
  by (auto simp: New_def within_budget_def split: if_splits)

lemma sum_list_butlast:
  "xs \<noteq> [] \<Longrightarrow> sum_list (map Size (butlast xs)) = sum_list (map Size xs) - Size (last xs)"
  by (induction xs) auto

lemma sum_list_remove1_le:
  "list_all (\<lambda>e. 0 \<le> Size e) xs \<Longrightarrow>
   sum_list (map Size (remove1 x xs)) \<le> sum_list (map Size xs)"
  by (induction xs) auto

lemma list_all_remove1: "list_all P xs \<Longrightarrow> list_all P (remove1 x xs)"
  by (induction xs) auto

lemma list_all_butlast: "list_all P xs \<Longrightarrow> list_all P (butlast xs)"
  by (induction xs) auto

lemma length_remove1_le: "length (remove1 x xs) \<le> length xs"
  by (induction xs) auto

text \<open>
  Within the budget, the sums and differences that \<^verbatim>\<open>validate\<close>, \<^verbatim>\<open>evictLast\<close> and
  \<^verbatim>\<open>addMeta\<close> compute stay in the range of \<^verbatim>\<open>int64\<close>.
\<close>

lemma sum_list_Size_nonneg:
  "list_all (\<lambda>e. 0 \<le> Size e) xs \<Longrightarrow> 0 \<le> sum_list (map Size xs)"
  by (induction xs) auto

lemma counters_in_int64:
  assumes "within_budget c" and "0 \<le> n" and "n \<le> size_c c"
    and "size_c c < 2 ^ 62" and "cap c < 2 ^ 63 - 1"
  shows "in_int64 (n + sizeUsed c)" and "in_int64 (capUsed c + 1)"
    and "in_int64 (capUsed c - 1)"
    and "list_c c \<noteq> [] \<Longrightarrow> in_int64 (sizeUsed c - Size (last (list_c c)))"
proof -
  from assms(1) have nn: "list_all (\<lambda>e. 0 \<le> Size e) (list_c c)"
    and s: "sum_list (map Size (list_c c)) \<le> sizeUsed c" "sizeUsed c \<le> size_c c"
    and k: "int (length (list_c c)) \<le> capUsed c" "capUsed c \<le> cap c"
    by (simp_all add: within_budget_def)
  from sum_list_Size_nonneg [OF nn] s have s0: "0 \<le> sizeUsed c" by simp
  from k have k0: "0 \<le> capUsed c" by simp
  from s0 s assms(2-4) show "in_int64 (n + sizeUsed c)" by (simp add: in_int64_def)
  from k0 k assms(5) show "in_int64 (capUsed c + 1)" and "in_int64 (capUsed c - 1)"
    by (simp_all add: in_int64_def)
  show "in_int64 (sizeUsed c - Size (last (list_c c)))" if ne: "list_c c \<noteq> []"
  proof -
    from ne nn have l0: "0 \<le> Size (last (list_c c))" by (simp add: list_all_iff)
    have "0 \<le> sum_list (map Size (butlast (list_c c)))"
      using nn by (intro sum_list_Size_nonneg list_all_butlast)
    with ne have "Size (last (list_c c)) \<le> sum_list (map Size (list_c c))"
      by (simp add: sum_list_butlast)
    with l0 s s0 assms(4) show ?thesis by (simp add: in_int64_def)
  qed
qed

lemma evictLast_within_budget:
  assumes "within_budget c" and "evictLast c dk = (e, c1, dk1)"
  shows "within_budget c1 \<and> size_c c1 = size_c c \<and> cap c1 = cap c \<and> dir c1 = dir c
     \<and> sizeUsed c1 \<le> sizeUsed c \<and> capUsed c1 \<le> capUsed c
     \<and> (e = None \<and> list_c c \<noteq> [] \<longrightarrow> capUsed c1 = capUsed c - 1)
     \<and> (e \<noteq> None \<longrightarrow> c1 = c)"
proof (cases "list_c c = []")
  case True
  with assms show ?thesis by (simp add: evictLast_def)
next
  case False
  then have sz: "0 \<le> Size (last (list_c c))"
    using assms(1) by (simp add: within_budget_def list_all_iff)
  show ?thesis
  proof (cases "os_Remove (Path (last (list_c c))) dk")
    case (Pair r dk2)
    show ?thesis
    proof (cases r)
      case None
      with Pair False assms(2)
      have c1: "c1 = c\<lparr>sizeUsed := sizeUsed c - Size (last (list_c c)),
                        capUsed := capUsed c - 1,
                        m_c := (m_c c)(Key (last (list_c c)) := None),
                        list_c := butlast (list_c c)\<rparr>"
        and e: "e = None"
        by (auto simp: evictLast_def Let_def)
      have len: "int (length (butlast (list_c c))) = int (length (list_c c)) - 1"
        using False by (simp add: of_nat_diff Suc_leI)
      show ?thesis using assms(1) False sz len
        by (simp add: c1 e within_budget_def sum_list_butlast list_all_butlast)
    next
      case (Some a)
      with Pair False assms show ?thesis by (auto simp: evictLast_def Let_def)
    qed
  qed
qed

lemma evict_loop_within_budget:
  "within_budget c \<Longrightarrow> evict_loop fuel n c dk = Some (e, c1, dk1) \<Longrightarrow>
   within_budget c1 \<and> size_c c1 = size_c c \<and> cap c1 = cap c \<and> dir c1 = dir c
     \<and> (e = None \<longrightarrow> n + sizeUsed c1 \<le> size_c c1)"
proof (induction fuel arbitrary: c dk)
  case 0
  then show ?case by (auto split: if_splits)
next
  case (Suc fuel)
  show ?case
  proof (cases "n + sizeUsed c > size_c c")
    case False
    with Suc.prems show ?thesis by auto
  next
    case True
    obtain e2 c2 dk2 where ev: "evictLast c dk = (e2, c2, dk2)"
      by (cases "evictLast c dk") auto
    note w = evictLast_within_budget [OF Suc.prems(1) ev]
    show ?thesis
    proof (cases e2)
      case None
      with True ev Suc.prems(2) have "evict_loop fuel n c2 dk2 = Some (e, c1, dk1)" by simp
      moreover from w have "within_budget c2" by simp
      ultimately have "within_budget c1 \<and> size_c c1 = size_c c2 \<and> cap c1 = cap c2
         \<and> dir c1 = dir c2 \<and> (e = None \<longrightarrow> n + sizeUsed c1 \<le> size_c c1)"
        using Suc.IH by blast
      with w show ?thesis by auto
    next
      case (Some a)
      with True ev Suc.prems(2) have "e = Some a" "c1 = c2" by auto
      with w show ?thesis by simp
    qed
  qed
qed

lemma validate_within_budget:
  assumes "within_budget c" and "validate fuel path n c dk = Some (e, c1, dk1)"
  shows "within_budget c1 \<and> size_c c1 = size_c c \<and> cap c1 = cap c \<and> dir c1 = dir c
     \<and> (e = None \<longrightarrow> n + sizeUsed c1 \<le> size_c c1 \<and> capUsed c1 + 1 \<le> cap c1)"
proof (cases "n > size_c c")
  case True
  with assms show ?thesis by (auto simp: validate_def)
next
  case False
  with assms(2) obtain e2 c2 dk2 where l: "evict_loop fuel n c dk = Some (e2, c2, dk2)"
    by (auto simp: validate_def split: option.splits)
  note w = evict_loop_within_budget [OF assms(1) l]
  show ?thesis
  proof (cases e2)
    case (Some a)
    with False l assms(2) have "e = Some a" "c1 = c2" by (auto simp: validate_def)
    with w show ?thesis by simp
  next
    case None
    show ?thesis
    proof (cases "capUsed c2 + 1 > cap c2")
      case False
      with None \<open>\<not> n > size_c c\<close> l assms(2) have "e = None" "c1 = c2"
        by (auto simp: validate_def)
      with w None False show ?thesis by simp
    next
      case True
      with None \<open>\<not> n > size_c c\<close> l assms(2) have ev: "evictLast c2 dk2 = (e, c1, dk1)"
        by (auto simp: validate_def)
      from w have wb: "within_budget c2" by simp
      note v = evictLast_within_budget [OF wb ev]
      from wb True have "list_c c2 \<noteq> []" and "capUsed c2 = cap c2"
        by (auto simp: within_budget_def)
      with v w None show ?thesis by auto
    qed
  qed
qed

lemma addMeta_within_budget:
  assumes "within_budget c" and "0 \<le> n" and "n + sizeUsed c \<le> size_c c"
    and "capUsed c + 1 \<le> cap c"
  shows "within_budget (addMeta key path n c) \<and> size_c (addMeta key path n c) = size_c c
     \<and> cap (addMeta key path n c) = cap c \<and> dir (addMeta key path n c) = dir c"
proof (cases "m_c c key")
  case None
  with assms show ?thesis by (simp add: addMeta_def within_budget_def Let_def)
next
  case (Some item)
  have "sum_list (map Size (remove1 item (list_c c))) \<le> sum_list (map Size (list_c c))"
    using assms(1) by (simp add: within_budget_def sum_list_remove1_le)
  moreover have "int (length (remove1 item (list_c c))) \<le> int (length (list_c c))"
    by (simp add: length_remove1_le)
  ultimately show ?thesis using assms Some
    by (simp add: addMeta_def within_budget_def Let_def list_all_remove1)
qed

lemma PutReader_within_budget:
  assumes "within_budget c" and "PutReader fuel z key r c dk = Some (e, c1, dk1)"
  shows "within_budget c1 \<and> size_c c1 = size_c c \<and> cap c1 = cap c \<and> dir c1 = dir c"
proof (cases "writeFile z (dir c) (escape key) r (useDeflate c) dk")
  case (Pair res dk2)
  show ?thesis
  proof (cases res)
    case (Inl a)
    with Pair assms show ?thesis by (simp add: PutReader_def)
  next
    case (Inr pn)
    obtain path n where pn: "pn = (path, n)" by (cases pn)
    from Pair Inr pn have n: "0 \<le> n"
      by (auto simp: writeFile_def Let_def split: prod.splits option.splits)
    from Pair Inr pn assms(2)
    obtain e2 c2 dk3 where v: "validate fuel path n c dk2 = Some (e2, c2, dk3)"
      by (auto simp: PutReader_def split: option.splits)
    note w = validate_within_budget [OF assms(1) v]
    show ?thesis
    proof (cases e2)
      case (Some a)
      with Pair Inr pn v assms(2) have "c1 = c2" by (simp add: PutReader_def)
      with w show ?thesis by simp
    next
      case None
      with Pair Inr pn v assms(2) have "c1 = addMeta (escape key) path n c2"
        by (simp add: PutReader_def)
      with w None n addMeta_within_budget [of c2 n "escape key" path] show ?thesis by simp
    qed
  qed
qed

lemma Puts_within_budget:
  "within_budget c \<Longrightarrow> Puts fuel z ops c dk = Some (es, c1, dk1) \<Longrightarrow>
   within_budget c1 \<and> size_c c1 = size_c c \<and> cap c1 = cap c \<and> dir c1 = dir c"
proof (induction ops arbitrary: c dk es)
  case Nil
  then show ?case by simp
next
  case (Cons op ops)
  obtain k v where op: "op = (k, v)" by (cases op)
  from Cons.prems(2) op obtain e c2 dk2 es2 where
    p: "Put fuel z k v c dk = Some (e, c2, dk2)"
    and r: "Puts fuel z ops c2 dk2 = Some (es2, c1, dk1)"
    by (auto split: option.splits)
  from p have "PutReader fuel z k \<lparr>r_bytes = v, r_err = None\<rparr> c dk = Some (e, c2, dk2)"
    by (simp add: Put_def)
  note w = PutReader_within_budget [OF Cons.prems(1) this]
  then have "within_budget c2" by simp
  from Cons.IH [OF this r] w show ?case by simp
qed

lemma Put_too_large:
  "size_c c < int (length v) \<Longrightarrow> \<exists>e dk1. Put fuel z k v c dk = Some (Some e, c, dk1)"
  by (auto simp: Put_def PutReader_def writeFile_def validate_def Let_def
      split: prod.splits option.splits)

text \<open>
  The counters and the recorded sizes after a sequence of \<^verbatim>\<open>Put\<close> calls that return, for
  a cache that \<^verbatim>\<open>New\<close> returned: \<open>sizeUsed \<le> size\<close> and \<open>capUsed \<le> cap\<close>, and so for the
  sum of the recorded sizes and the number of the entries; a blob whose input is longer than
  \<open>size\<close> is rejected. The recorded size of an entry is the length of the input, which is
  the size of the file only when the cache does not compress. The hypotheses on the range
  are where \<open>int\<close> and \<^verbatim>\<open>int64\<close> agree.
\<close>

lemma Puts_recorded_within_budget:
  assumes "New d sz cp deflate = Inr c0" and "Puts fuel z ops c0 dk0 = Some (es, c, dk)"
    and "sz < 2 ^ 62" and "cp < 2 ^ 63 - 1"
    and "list_all (\<lambda>(k, v). int (length v) < 2 ^ 63) ops"
  shows "size_c c = sz \<and> cap c = cp
     \<and> sizeUsed c \<le> sz \<and> capUsed c \<le> cp
     \<and> sum_list (map Size (list_c c)) \<le> sz \<and> int (length (list_c c)) \<le> cp
     \<and> (\<forall>fuel1 k v. sz < int (length v) \<longrightarrow>
           (\<exists>e dk1. Put fuel1 z k v c dk = Some (Some e, c, dk1)))"
proof -
  from New_within_budget [OF assms(1)]
  have w0: "within_budget c0" "size_c c0 = sz" "cap c0 = cp"
    by simp_all
  from Puts_within_budget [OF w0(1) assms(2)] w0
  have w: "within_budget c" "size_c c = sz" "cap c = cp" by simp_all
  from w have "sizeUsed c \<le> sz \<and> capUsed c \<le> cp
     \<and> sum_list (map Size (list_c c)) \<le> sz \<and> int (length (list_c c)) \<le> cp"
    by (auto simp: within_budget_def)
  moreover have "\<forall>fuel1 k v. sz < int (length v) \<longrightarrow>
           (\<exists>e dk1. Put fuel1 z k v c dk = Some (Some e, c, dk1))"
    using Put_too_large w(2) by blast
  ultimately show ?thesis using w by simp
qed

text \<open>
  The sequence of the package's size-eviction test, under a budget of ten bytes: the last
  blob evicts the four entries before it. An eleven-byte blob is then rejected.
\<close>

lemma size_eviction_run:
  "New ''d'' 10 40 False = Inr (cache0 False) \<and>
   (\<exists>es c dk.
      Puts 4 framing_codec
        [(''a'', ''abcdefgh''), (''b'', ''ij''), (''c'', ''k''), (''d'', ''l''), (''e'', ''m''),
         (''f'', ''nopqrstuvw'')] (cache0 False) disk0 = Some (es, c, dk)
      \<and> es = [None, None, None, None, None, None] \<and> map Key (list_c c) = [''f'']
      \<and> sizeUsed c \<le> 10 \<and> capUsed c \<le> 40
      \<and> sum_list (map Size (list_c c)) \<le> 10 \<and> int (length (list_c c)) \<le> 40
      \<and> (\<exists>e dk1. Put 0 framing_codec ''g'' ''0123456789A'' c dk = Some (Some e, c, dk1)))"
proof -
  let ?ops = "[(''a'', ''abcdefgh''), (''b'', ''ij''), (''c'', ''k''), (''d'', ''l''),
     (''e'', ''m''), (''f'', ''nopqrstuvw'')]"
  have n: "New ''d'' 10 40 False = Inr (cache0 False)" by (rule New_cache0)
  have r: "(case Puts 4 framing_codec ?ops (cache0 False) disk0 of
      None \<Rightarrow> False
    | Some (es, c, dk) \<Rightarrow> es = [None, None, None, None, None, None]
        \<and> map Key (list_c c) = [''f''])"
    by (simp add: eval_defs eval_nat_numeral)
  then obtain es c dk where p: "Puts 4 framing_codec ?ops (cache0 False) disk0 = Some (es, c, dk)"
    and q: "es = [None, None, None, None, None, None]" "map Key (list_c c) = [''f'']"
    by (auto split: option.splits)
  have l: "(10::int) < int (length ''0123456789A'')" by simp
  have r1: "(10::int) < 2 ^ 62" and r2: "(40::int) < 2 ^ 63 - 1" by simp_all
  have r3: "list_all (\<lambda>(k, v). int (length v) < 2 ^ 63) ?ops" by simp
  note h = Puts_recorded_within_budget [OF n p r1 r2 r3]
  from h l have g: "\<exists>e dk1. Put 0 framing_codec ''g'' ''0123456789A'' c dk = Some (Some e, c, dk1)"
    by blast
  from h have b: "sizeUsed c \<le> 10" "capUsed c \<le> 40"
    "sum_list (map Size (list_c c)) \<le> 10" "int (length (list_c c)) \<le> 40"
    by simp_all
  show ?thesis
    apply (rule conjI [OF n])
    apply (rule exI [of _ es], rule exI [of _ c], rule exI [of _ dk])
    apply (intro conjI p q b g)
    done
qed

lemma validate_too_large:
  "size_c c < n \<Longrightarrow>
   validate fuel path n c dk =
     Some (Some (FileError (dir c) '''' ErrTooLarge), c, snd (os_Remove path dk))"
  by (simp add: validate_def)

subsection \<open>The eviction loop on an empty list\<close>

lemma evict_loop_stuck:
  "list_c c = [] \<Longrightarrow> size_c c < n + sizeUsed c \<Longrightarrow> evict_loop fuel n c dk = None"
  by (induction fuel) (auto simp: evictLast_def)

lemma validate_stuck:
  assumes "list_c c = [x]" and "n \<le> size_c c" and "size_c c < n + sizeUsed c"
    and "size_c c < n + (sizeUsed c - Size x)" and "os_Remove (Path x) dk = (None, dk1)"
  shows "validate fuel path n c dk = None"
proof (cases fuel)
  case 0
  with assms show ?thesis
    by (simp add: validate_def)
next
  case (Suc f)
  with assms show ?thesis
    by (simp add: validate_def evictLast_def evict_loop_stuck)
qed

subsection \<open>Warmup\<close>


lemma addMeta_useDeflate: "useDeflate (addMeta key path n c) = useDeflate c"
  by (simp add: addMeta_def Let_def split: option.splits)

lemma addMeta_lookup:
  "m_c (addMeta key path n c) k =
     (if k = key then Some \<lparr>Key = key, Size = n, Path = path\<rparr> else m_c c k)"
  by (simp add: addMeta_def Let_def split: option.splits)



subsection \<open>Where the counters are exact\<close>

text \<open>
  \<^verbatim>\<open>New\<close>, \<^verbatim>\<open>evictLast\<close>, \<^verbatim>\<open>Get\<close> and an \<^verbatim>\<open>addMeta\<close> of a key that the
  map does not hold keep the counters equal to the sum of the sizes and the number of the
  entries. From such a state the loop of \<^verbatim>\<open>validate\<close> ends within as many iterations as
  the list has entries, and \<^verbatim>\<open>Put\<close> returns.
\<close>

lemma New_counters_exact: "New d sz cp deflate = Inr c \<Longrightarrow> counters_exact c"
  by (auto simp: New_def counters_exact_def split: if_splits)

lemma evictLast_counters_exact:
  assumes "counters_exact c" and "evictLast c dk = (e, c1, dk1)"
  shows "counters_exact c1"
proof (cases "list_c c = []")
  case True
  with assms show ?thesis by (simp add: evictLast_def)
next
  case False
  then have len: "int (length (list_c c) - Suc 0) = int (length (list_c c)) - 1"
    by (cases "list_c c") auto
  from False assms show ?thesis
    by (auto simp: evictLast_def Let_def counters_exact_def sum_list_butlast len list_all_butlast
        split: prod.splits option.splits)
qed

lemma addMeta_fresh_counters_exact:
  "counters_exact c \<Longrightarrow> m_c c key = None \<Longrightarrow> 0 \<le> n \<Longrightarrow> counters_exact (addMeta key path n c)"
  by (simp add: addMeta_def counters_exact_def Let_def)

lemma sum_list_MoveToFront: "sum_list (map Size (MoveToFront item xs)) = sum_list (map Size xs)"
  by (induction xs) (auto simp: MoveToFront_def)

lemma length_MoveToFront: "length (MoveToFront item xs) = length xs"
proof (cases "item \<in> set xs")
  case True
  then have "0 < length xs" by (rule length_pos_if_in_set)
  with True show ?thesis by (simp add: MoveToFront_def length_remove1)
next
  case False
  then show ?thesis by (simp add: MoveToFront_def)
qed

lemma list_all_MoveToFront: "list_all P (MoveToFront item xs) = list_all P xs"
  by (auto simp: MoveToFront_def list_all_iff dest: notin_set_remove1) (metis in_set_remove1)

lemma Get_counters_exact: "counters_exact c \<Longrightarrow> counters_exact (snd (Get z key c dk))"
  by (auto simp: Get_def Let_def counters_exact_def sum_list_MoveToFront length_MoveToFront
      list_all_MoveToFront split: option.splits sum.splits)

lemma evict_loop_returns:
  "counters_exact c \<Longrightarrow> 0 \<le> n \<Longrightarrow> n \<le> size_c c \<Longrightarrow> length (list_c c) \<le> fuel \<Longrightarrow>
   evict_loop fuel n c dk \<noteq> None"
proof (induction fuel arbitrary: c dk)
  case 0
  then show ?case by (simp add: counters_exact_def)
next
  case (Suc fuel)
  show ?case
  proof (cases "n + sizeUsed c > size_c c")
    case False
    then show ?thesis by simp
  next
    case True
    with Suc.prems have ne: "list_c c \<noteq> []" by (auto simp: counters_exact_def)
    obtain e c1 dk1 where ev: "evictLast c dk = (e, c1, dk1)" by (cases "evictLast c dk") auto
    show ?thesis
    proof (cases e)
      case (Some a)
      with True ev show ?thesis by simp
    next
      case None
      from ev None ne have "list_c c1 = butlast (list_c c)" "size_c c1 = size_c c"
        by (auto simp: evictLast_def Let_def split: prod.splits option.splits)
      with Suc.prems ne have "length (list_c c1) \<le> fuel" "n \<le> size_c c1" by auto
      with Suc.IH [OF evictLast_counters_exact [OF Suc.prems(1) ev] Suc.prems(2)]
      have "evict_loop fuel n c1 dk1 \<noteq> None" by simp
      with True ev None show ?thesis by simp
    qed
  qed
qed

lemma Put_returns:
  assumes "counters_exact c" and "length (list_c c) \<le> fuel"
  shows "Put fuel z key v c dk \<noteq> None"
proof -
  have "validate fuel path (int (length v)) c dk1 \<noteq> None" for path dk1
  proof (cases "int (length v) > size_c c")
    case True
    then show ?thesis by (simp add: validate_def)
  next
    case False
    then have "evict_loop fuel (int (length v)) c dk1 \<noteq> None"
      using evict_loop_returns [OF assms(1) _ _ assms(2), of "int (length v)" dk1] by simp
    with False show ?thesis
      by (auto simp: validate_def split: option.splits) (metis prod_cases3)
  qed
  note v = this
  show ?thesis
  proof (cases "writeFile z (dir c) (escape key) \<lparr>r_bytes = v, r_err = None\<rparr> (useDeflate c) dk")
    case (Pair res dk2)
    show ?thesis
    proof (cases res)
      case (Inl a)
      with Pair show ?thesis by (simp add: Put_def PutReader_def)
    next
      case (Inr pn)
      obtain path n where pn: "pn = (path, n)" by (cases pn)
      from Pair Inr pn writeFile_size have "n = int (length v)" by fastforce
      with v [of path dk2] obtain r where "validate fuel path n c dk2 = Some r" by auto
      with Pair Inr pn show ?thesis
        by (cases r) (auto simp: Put_def PutReader_def split: option.splits)
    qed
  qed
qed

subsection \<open>Put, then Get, for a path that no entry holds\<close>

text \<open>
  Eviction deletes only files at the paths of entries. When no entry holds the path that a
  key is written to, the file written by a successful \<^verbatim>\<open>Put\<close> is still there when it
  returns, and a \<^verbatim>\<open>Get\<close> of the key yields the bytes put, given that the file can be
  opened and, under compression, that the reader undoes the writer on these bytes.
\<close>

lemma evictLast_keeps_other_files:
  assumes "evictLast c dk = (e, c1, dk1)" and "\<forall>x\<in>set (list_c c). Path x \<noteq> p"
  shows "map_of (files dk1) p = map_of (files dk) p \<and> deny_open dk1 = deny_open dk
     \<and> (\<forall>x\<in>set (list_c c1). Path x \<noteq> p) \<and> useDeflate c1 = useDeflate c \<and> dir c1 = dir c"
proof (cases "list_c c = []")
  case True
  with assms show ?thesis by (simp add: evictLast_def)
next
  case False
  then have "Path (last (list_c c)) \<noteq> p" using assms(2) by simp
  moreover have "set (butlast (list_c c)) \<subseteq> set (list_c c)" by (auto dest: in_set_butlastD)
  ultimately show ?thesis using assms False
    by (auto simp: evictLast_def Let_def os_Remove_def delete_conv'
        split: prod.splits option.splits if_splits)
qed

lemma evict_loop_keeps_other_files:
  "evict_loop fuel n c dk = Some (e, c1, dk1) \<Longrightarrow> \<forall>x\<in>set (list_c c). Path x \<noteq> p \<Longrightarrow>
   map_of (files dk1) p = map_of (files dk) p \<and> deny_open dk1 = deny_open dk
     \<and> (\<forall>x\<in>set (list_c c1). Path x \<noteq> p) \<and> useDeflate c1 = useDeflate c \<and> dir c1 = dir c"
proof (induction fuel arbitrary: c dk)
  case 0
  then show ?case by (auto split: if_splits)
next
  case (Suc fuel)
  show ?case
  proof (cases "n + sizeUsed c > size_c c")
    case False
    with Suc.prems show ?thesis by auto
  next
    case True
    obtain e2 c2 dk2 where ev: "evictLast c dk = (e2, c2, dk2)" by (cases "evictLast c dk") auto
    note k = evictLast_keeps_other_files [OF ev Suc.prems(2)]
    show ?thesis
    proof (cases e2)
      case (Some a)
      with True ev Suc.prems(1) have "c1 = c2" "dk1 = dk2" by auto
      with k show ?thesis by simp
    next
      case None
      with True ev Suc.prems(1) have "evict_loop fuel n c2 dk2 = Some (e, c1, dk1)" by simp
      moreover from k have "\<forall>x\<in>set (list_c c2). Path x \<noteq> p" by simp
      ultimately have "map_of (files dk1) p = map_of (files dk2) p \<and> deny_open dk1 = deny_open dk2
         \<and> (\<forall>x\<in>set (list_c c1). Path x \<noteq> p) \<and> useDeflate c1 = useDeflate c2 \<and> dir c1 = dir c2"
        using Suc.IH by blast
      with k show ?thesis by simp
    qed
  qed
qed

lemma validate_keeps_other_files:
  assumes "validate fuel path n c dk = Some (None, c1, dk1)" and "\<forall>x\<in>set (list_c c). Path x \<noteq> p"
  shows "map_of (files dk1) p = map_of (files dk) p \<and> deny_open dk1 = deny_open dk
     \<and> useDeflate c1 = useDeflate c"
proof -
  from assms(1) have le: "\<not> n > size_c c" by (auto simp: validate_def split: if_splits)
  with assms(1) obtain e2 c2 dk2 where l: "evict_loop fuel n c dk = Some (e2, c2, dk2)"
    by (auto simp: validate_def split: option.splits)
  note k = evict_loop_keeps_other_files [OF l assms(2)]
  show ?thesis
  proof (cases "e2 = None \<and> capUsed c2 + 1 > cap c2")
    case True
    with le l assms(1) have ev: "evictLast c2 dk2 = (None, c1, dk1)" by (auto simp: validate_def)
    from k have "\<forall>x\<in>set (list_c c2). Path x \<noteq> p" by simp
    from evictLast_keeps_other_files [OF ev this] k show ?thesis by simp
  next
    case False
    with le l assms(1) have "c1 = c2" "dk1 = dk2"
      by (auto simp: validate_def split: option.splits if_splits)
    with k show ?thesis by simp
  qed
qed

lemma Put_then_Get_fresh:
  assumes "Put fuel z key v c dk = Some (None, c1, dk1)"
    and "\<forall>x\<in>set (list_c c). Path x \<noteq> filepath_Join (dir c) (escape key)"
    and "filepath_Join (dir c) (escape key) \<notin> deny_open dk"
    and "useDeflate c \<Longrightarrow> decompress z (compress z v) = v"
  shows "fst (Get z key c1 dk1) = Inr v"
proof -
  let ?p = "filepath_Join (dir c) (escape key)"
  let ?r = "\<lparr>r_bytes = v, r_err = None\<rparr>"
  from assms(1) obtain dk2 c2 where
    w: "writeFile z (dir c) (escape key) ?r (useDeflate c) dk = (Inr (?p, int (length v)), dk2)"
    and va: "validate fuel ?p (int (length v)) c dk2 = Some (None, c2, dk1)"
    and c1: "c1 = addMeta (escape key) ?p (int (length v)) c2"
    by (auto simp: Put_def PutReader_def dest: writeFile_size
        split: prod.splits sum.splits option.splits)
  from writeFile_size [OF w]
  have f2: "map_of (files dk2) ?p = Some (if useDeflate c then compress z v else v)" by simp
  from w have d2: "deny_open dk2 = deny_open dk"
    by (auto simp: writeFile_def Let_def os_Create_def write_bytes_def split: if_splits)
  from validate_keeps_other_files [OF va assms(2)] f2 d2
  have "map_of (files dk1) ?p = Some (if useDeflate c then compress z v else v)"
    and "deny_open dk1 = deny_open dk" and "useDeflate c2 = useDeflate c" by simp_all
  with assms(3,4) show ?thesis
    by (simp add: Get_def c1 addMeta_lookup addMeta_useDeflate Let_def os_Open_def)
qed

section \<open>The claims\<close>

subsection \<open>C1: the counters against the index\<close>

text \<open>
  Claim C1 says that after every operation \<open>sizeUsed\<close> is the sum of the sizes of the
  entries and \<open>capUsed\<close> their number, and that an insert that replaces a key takes the
  replaced entry out of both counters. \<^verbatim>\<open>addMeta\<close> adds to both counters first and, for
  a key that is present, only removes the old element from the list: \<^verbatim>\<open>evictLast\<close>
  subtracts, \<^verbatim>\<open>addMeta\<close> does not. After
  \<^verbatim>\<open>New("d", 10, 40, false)\<close>, \<^verbatim>\<open>Put("a", "x")\<close>, \<^verbatim>\<open>Put("a", "x")\<close> the index holds
  one entry of one byte and the counters say two entries and two bytes. The other steps keep
  the counters exact (lemmas \<open>evictLast_counters_exact\<close>, \<open>Get_counters_exact\<close>,
  \<open>addMeta_fresh_counters_exact\<close>).
\<close>

theorem reput_counters_drift:
  "New ''d'' 10 40 False = Inr (cache0 False) \<and>
   (case Puts 0 framing_codec [(''a'', ''x''), (''a'', ''x'')] (cache0 False) disk0 of
      None \<Rightarrow> False
    | Some (es, c, dk) \<Rightarrow>
        es = [None, None] \<and> map Key (list_c c) = [''a'']
        \<and> capUsed c = 2 \<and> int (length (list_c c)) = 1
        \<and> sizeUsed c = 2 \<and> sum_list (map Size (list_c c)) = 1)"
  by (simp add: eval_defs)

subsection \<open>C2: putting a key again\<close>

text \<open>
  Claim C2 says that a \<^verbatim>\<open>Put\<close> of a key that is present leaves \<open>capUsed\<close> unchanged,
  changes \<open>sizeUsed\<close> by the difference of the new and the old size, and moves the entry to
  the front. With \<open>a\<close> present at three bytes, \<^verbatim>\<open>Put("a", "abcde")\<close> leaves the entry at
  the front with size five, but \<open>capUsed\<close> goes from 1 to 2 and \<open>sizeUsed\<close> from 3 to 8,
  where the claim has 1 and 5.
\<close>

theorem reput_adds_to_both_counters:
  "(case Put 0 framing_codec ''a'' ''abc'' (cache0 False) disk0 of
      None \<Rightarrow> False
    | Some (e1, c1, dk1) \<Rightarrow>
        e1 = None \<and> m_c c1 ''a'' = Some \<lparr>Key = ''a'', Size = 3, Path = ''d/a''\<rparr>
        \<and> capUsed c1 = 1 \<and> sizeUsed c1 = 3 \<and>
        (case Put 0 framing_codec ''a'' ''abcde'' c1 dk1 of
           None \<Rightarrow> False
         | Some (e2, c2, dk2) \<Rightarrow>
             e2 = None \<and> list_c c2 = [\<lparr>Key = ''a'', Size = 5, Path = ''d/a''\<rparr>]
             \<and> capUsed c2 = 2 \<and> sizeUsed c2 = 8))"
  by (simp add: eval_defs)

subsection \<open>C3: the budgets after a sequence of Puts\<close>

text \<open>
  Claim C3 says that after every successful \<^verbatim>\<open>Put\<close> the bytes used are within
  \<open>size\<close> and the entries within \<open>cap\<close>, where the size of a blob is its stored size, and
  that a blob whose stored size exceeds \<open>size\<close> is rejected. \<^verbatim>\<open>validate\<close> is given the
  count that \<^verbatim>\<open>writeFile\<close> returns, which under compression is the length of the input
  and not the size of the file (lemma \<open>writeFile_size\<close>). With compression and a budget of ten bytes,
  \<^verbatim>\<open>Put("a", "abcdefgh")\<close> returns success and tracks a file of twelve bytes; and after
  three puts of one byte each the files of the cache hold fifteen bytes while \<open>sizeUsed\<close>
  is 3. For the recorded sizes the budgets do hold (lemma \<open>Puts_recorded_within_budget\<close>).
\<close>

theorem deflate_admits_file_over_budget:
  "(case Put 0 framing_codec ''a'' ''abcdefgh'' (cache0 True) disk0 of
      None \<Rightarrow> False
    | Some (e, c, dk) \<Rightarrow>
        e = None \<and> size_c c = 10
        \<and> m_c c ''a'' = Some \<lparr>Key = ''a'', Size = 8, Path = ''d/a''\<rparr>
        \<and> os_Stat ''d/a'' dk = Inr 12) \<and>
   (case Puts 0 framing_codec [(''a'', ''x''), (''b'', ''y''), (''c'', ''z'')] (cache0 True) disk0 of
      None \<Rightarrow> False
    | Some (es, c, dk) \<Rightarrow>
        es = [None, None, None] \<and> size_c c = 10 \<and> sizeUsed c = 3
        \<and> sum_list (map (\<lambda>(p, bs). int (length bs)) (files dk)) = 15)"
  by (simp add: eval_defs)

subsection \<open>C4: the size recorded under compression\<close>

text \<open>
  Claim C4 says that with compression the byte count that \<^verbatim>\<open>writeFile\<close> returns, and
  that goes into the entry and into \<open>sizeUsed\<close>, is the compressed size of the file on disk.
  \<^verbatim>\<open>writeFile\<close> returns the result of \<^verbatim>\<open>io.Copy(w, r)\<close>, the number of bytes copied
  from the reader (lemma \<open>writeFile_size\<close>), whereas \<^verbatim>\<open>Warmup\<close> records the size of the
  file. For \<^verbatim>\<open>Put("key", "value")\<close> into a compressing cache the entry and \<open>sizeUsed\<close>
  say 5, the length of the input, and the file holds the 9 bytes of the compressed stream.
\<close>

theorem deflate_records_input_size:
  "(case Put 0 framing_codec ''key'' ''value'' (cache0 True) disk0 of
      None \<Rightarrow> False
    | Some (e, c, dk) \<Rightarrow>
        e = None \<and> list_c c = [\<lparr>Key = ''key'', Size = 5, Path = ''d/key''\<rparr>]
        \<and> sizeUsed c = 5
        \<and> os_Stat ''d/key'' dk = Inr 9
        \<and> map_of (files dk) ''d/key'' = Some (compress framing_codec ''value''))"
  by (simp add: eval_defs)

subsection \<open>C5: Put, then Get\<close>

text \<open>
  Claim C5 says that a \<^verbatim>\<open>Get\<close> right after a successful \<^verbatim>\<open>Put\<close> of the same key
  succeeds and yields the bytes put. \<^verbatim>\<open>PutReader\<close> writes the file before
  \<^verbatim>\<open>validate\<close> evicts; when the key is present and its old entry is the one evicted,
  \<^verbatim>\<open>evictLast\<close> deletes the file at the entry's path, which is the file just written,
  and \<^verbatim>\<open>addMeta\<close> then tracks a file that is gone. Under a budget of ten bytes, after
  \<^verbatim>\<open>Put("a", "abcdefgh")\<close> the call \<^verbatim>\<open>Put("a", "ABCDEFGH")\<close> returns success, the
  disk is empty, and \<^verbatim>\<open>Get("a")\<close> fails at \<^verbatim>\<open>os.Open\<close>. Where no entry holds the
  path written to, the claim holds (lemma \<open>Put_then_Get_fresh\<close>).
\<close>

theorem reput_get_fails:
  "(case Puts 1 framing_codec [(''a'', ''abcdefgh''), (''a'', ''ABCDEFGH'')] (cache0 False) disk0 of
      None \<Rightarrow> False
    | Some (es, c, dk) \<Rightarrow>
        es = [None, None] \<and> m_c c ''a'' = Some \<lparr>Key = ''a'', Size = 8, Path = ''d/a''\<rparr>
        \<and> files dk = []
        \<and> fst (Get framing_codec ''a'' c dk) = Inl (OsError NotExist))"
  by (simp add: eval_defs)

subsection \<open>C6: a blob larger than the byte budget\<close>

text \<open>
  Claim C6 says that a put whose written size exceeds \<open>size\<close> removes the file just
  written, returns the too-large error and leaves index, list and counters as they were.
  \<^verbatim>\<open>validate\<close> calls \<^verbatim>\<open>os.Remove\<close> and drops its result: where the deletion is
  refused, the error is still too-large, the cache is unchanged, and the file stays. The
  run is on a cache that does not compress, so the count tested is the size of the file.
\<close>

theorem too_large_file_stays_when_remove_fails:
  "Put 0 framing_codec ''a'' ''abcdefghijk'' (cache0 False) (disk0\<lparr>deny_remove := {''d/a''}\<rparr>)
     = Some (Some (FileError ''d'' '''' ErrTooLarge), cache0 False,
             disk0\<lparr>files := [(''d/a'', ''abcdefghijk'')], deny_remove := {''d/a''}\<rparr>)"
  by (simp add: eval_defs)

text \<open>
  Claim C6 as amended, for a cache that does not compress: when the written size, which is
  then the size of the file, exceeds \<open>size\<close>, \<^verbatim>\<open>PutReader\<close> (and so \<^verbatim>\<open>Put\<close>) and
  \<^verbatim>\<open>PutFile\<close> return the too-large error for every bound on the loop and leave the cache
  as it was; the disk is the one after the write with \<^verbatim>\<open>os.Remove\<close> applied to the
  written path, so the file is gone unless its deletion is refused, and then the disk is as
  the write left it.
\<close>

theorem too_large_rejected:
  "(\<not> useDeflate c
      \<and> writeFile z (dir c) (escape key) r (useDeflate c) dk = (Inr (path, n), dk1)
      \<and> size_c c < n \<longrightarrow>
      os_Stat path dk1 = Inr n
      \<and> PutReader fuel z key r c dk =
          Some (Some (FileError (dir c) '''' ErrTooLarge), c, snd (os_Remove path dk1))
      \<and> (path \<notin> deny_remove dk1 \<longrightarrow> map_of (files (snd (os_Remove path dk1))) path = None)
      \<and> (path \<in> deny_remove dk1 \<longrightarrow> snd (os_Remove path dk1) = dk1)) \<and>
   (\<not> useDeflate c \<and> filesize srcpath dk = Inr n0
      \<and> os_Rename srcpath (filepath_Join (dir c) (escape key)) dk = (None, dk2)
      \<and> size_c c < n0 \<longrightarrow>
      os_Stat (filepath_Join (dir c) (escape key)) dk2 = Inr n0
      \<and> PutFile fuel z key srcpath c dk =
          Some (Some (FileError (dir c) '''' ErrTooLarge), c,
                snd (os_Remove (filepath_Join (dir c) (escape key)) dk2))
      \<and> (filepath_Join (dir c) (escape key) \<notin> deny_remove dk2 \<longrightarrow>
           map_of (files (snd (os_Remove (filepath_Join (dir c) (escape key)) dk2)))
             (filepath_Join (dir c) (escape key)) = None)
      \<and> (filepath_Join (dir c) (escape key) \<in> deny_remove dk2 \<longrightarrow>
           snd (os_Remove (filepath_Join (dir c) (escape key)) dk2) = dk2))"
proof (intro conjI impI)
  assume a: "\<not> useDeflate c
      \<and> writeFile z (dir c) (escape key) r (useDeflate c) dk = (Inr (path, n), dk1)
      \<and> size_c c < n"
  then show "os_Stat path dk1 = Inr n"
    by (auto dest: writeFile_plain_Stat)
  from a have "writeFile z (dir c) (escape key) r (useDeflate c) dk = (Inr (path, n), dk1)"
    and "size_c c < n" by blast+
  then show "PutReader fuel z key r c dk =
        Some (Some (FileError (dir c) '''' ErrTooLarge), c, snd (os_Remove path dk1))"
    by (simp add: PutReader_def validate_too_large)
  show "map_of (files (snd (os_Remove path dk1))) path = None" if "path \<notin> deny_remove dk1"
    using that by (simp add: os_Remove_result delete_conv')
  show "snd (os_Remove path dk1) = dk1" if "path \<in> deny_remove dk1"
    using that by (simp add: os_Remove_result)
next
  let ?p = "filepath_Join (dir c) (escape key)"
  assume b: "\<not> useDeflate c \<and> filesize srcpath dk = Inr n0
      \<and> os_Rename srcpath ?p dk = (None, dk2) \<and> size_c c < n0"
  then have "os_Stat srcpath dk = Inr n0"
    by (auto simp: filesize_def split: sum.splits)
  with b show "os_Stat ?p dk2 = Inr n0"
    by (auto dest: os_Rename_moves)
  from b show "PutFile fuel z key srcpath c dk =
        Some (Some (FileError (dir c) '''' ErrTooLarge), c, snd (os_Remove ?p dk2))"
    by (simp add: PutFile_def Let_def validate_too_large)
  show "map_of (files (snd (os_Remove ?p dk2))) ?p = None" if "?p \<notin> deny_remove dk2"
    using that by (simp add: os_Remove_result delete_conv')
  show "snd (os_Remove ?p dk2) = dk2" if "?p \<in> deny_remove dk2"
    using that by (simp add: os_Remove_result)
qed

text \<open>An eleven-byte blob under a budget of ten, through \<^verbatim>\<open>PutReader\<close> and \<^verbatim>\<open>PutFile\<close>.\<close>

theorem too_large_rejected_witness:
  "PutReader 0 framing_codec ''a'' \<lparr>r_bytes = ''abcdefghijk'', r_err = None\<rparr> (cache0 False) disk0
     = Some (Some (FileError ''d'' '''' ErrTooLarge), cache0 False, disk0)
   \<and> PutFile 0 framing_codec ''a'' ''tmp/src'' (cache0 False)
       (disk0\<lparr>files := [(''tmp/src'', ''abcdefghijk'')]\<rparr>)
     = Some (Some (FileError ''d'' '''' ErrTooLarge), cache0 False, disk0)"
proof -
  have w: "writeFile framing_codec (dir (cache0 False)) (escape ''a'')
       \<lparr>r_bytes = ''abcdefghijk'', r_err = None\<rparr> (useDeflate (cache0 False)) disk0
     = (Inr (''d/a'', 11), disk0\<lparr>files := [(''d/a'', ''abcdefghijk'')]\<rparr>)"
    by (simp add: eval_defs)
  have s: "size_c (cache0 False) < 11" "\<not> useDeflate (cache0 False)" by (simp_all add: cache0_def)
  have 1: "PutReader 0 framing_codec ''a'' \<lparr>r_bytes = ''abcdefghijk'', r_err = None\<rparr>
       (cache0 False) disk0
     = Some (Some (FileError ''d'' '''' ErrTooLarge), cache0 False, disk0)"
    using too_large_rejected [where z = framing_codec and c = "cache0 False" and key = "''a''"
        and r = "\<lparr>r_bytes = ''abcdefghijk'', r_err = None\<rparr>" and dk = disk0
        and path = "''d/a''" and n = 11 and fuel = 0
        and ?dk1.0 = "disk0\<lparr>files := [(''d/a'', ''abcdefghijk'')]\<rparr>"] w s
    by (simp add: os_defs concrete_defs)
  have 2: "PutFile 0 framing_codec ''a'' ''tmp/src'' (cache0 False)
       (disk0\<lparr>files := [(''tmp/src'', ''abcdefghijk'')]\<rparr>)
     = Some (Some (FileError ''d'' '''' ErrTooLarge), cache0 False, disk0)"
    using too_large_rejected [where z = framing_codec and c = "cache0 False" and key = "''a''"
        and srcpath = "''tmp/src''" and fuel = 0 and ?n0.0 = 11
        and dk = "disk0\<lparr>files := [(''tmp/src'', ''abcdefghijk'')]\<rparr>"
        and ?dk2.0 = "disk0\<lparr>files := [(''d/a'', ''abcdefghijk'')]\<rparr>"]
    by (simp add: os_defs escape_defs filesize_def concrete_defs)
  from 1 2 show ?thesis by simp
qed

subsection \<open>C7: evictLast\<close>

text \<open>
  Claim C7: on an empty list \<^verbatim>\<open>evictLast\<close> changes nothing and returns success. On a
  list with entries, when the deletion of the last entry's file succeeds, exactly that
  entry leaves the list and the map, \<open>sizeUsed\<close> drops by its size and \<open>capUsed\<close> by one,
  and the file is gone; when the deletion fails, the error is returned and cache and disk
  are unchanged.
\<close>

theorem evictLast_cases:
  "(list_c c = [] \<longrightarrow> evictLast c dk = (None, c, dk)) \<and>
   (list_c c \<noteq> [] \<and> os_Remove (Path (last (list_c c))) dk = (None, dk1) \<longrightarrow>
      evictLast c dk =
        (None,
         c\<lparr>sizeUsed := sizeUsed c - Size (last (list_c c)), capUsed := capUsed c - 1,
           m_c := (m_c c)(Key (last (list_c c)) := None), list_c := butlast (list_c c)\<rparr>,
         dk1)
      \<and> map_of (files dk1) (Path (last (list_c c))) = None) \<and>
   (list_c c \<noteq> [] \<and> os_Remove (Path (last (list_c c))) dk = (Some e, dk1) \<longrightarrow>
      evictLast c dk = (Some (OsError e), c, dk) \<and> dk1 = dk)"
  by (auto simp: evictLast_def Let_def dest: os_Remove_gone os_Remove_failed)

text \<open>The three cases: nothing to evict, a deletion that succeeds, a deletion refused.\<close>

theorem evictLast_cases_witness:
  "evictLast (cache0 False) disk0 = (None, cache0 False, disk0)
   \<and> evictLast cache1 disk1 = (None, cache0 False, disk0)
   \<and> evictLast cache1 (disk1\<lparr>deny_remove := {''d/a''}\<rparr>)
       = (Some (OsError Denied), cache1, disk1\<lparr>deny_remove := {''d/a''}\<rparr>)"
proof -
  have 1: "evictLast (cache0 False) disk0 = (None, cache0 False, disk0)"
    using evictLast_cases [of "cache0 False" disk0] by (simp add: cache0_def)
  have r2: "os_Remove (Path (last (list_c cache1))) disk1 = (None, disk0)"
    by (simp add: eval_defs)
  have 2: "evictLast cache1 disk1 = (None, cache0 False, disk0)"
    using evictLast_cases [of cache1 disk1 disk0] r2 by (simp add: cache1_def cache0_def)
  have r3: "os_Remove (Path (last (list_c cache1))) (disk1\<lparr>deny_remove := {''d/a''}\<rparr>)
      = (Some Denied, disk1\<lparr>deny_remove := {''d/a''}\<rparr>)"
    by (simp add: eval_defs)
  have 3: "evictLast cache1 (disk1\<lparr>deny_remove := {''d/a''}\<rparr>)
       = (Some (OsError Denied), cache1, disk1\<lparr>deny_remove := {''d/a''}\<rparr>)"
    using evictLast_cases [of cache1 "disk1\<lparr>deny_remove := {''d/a''}\<rparr>" _ Denied] r3
    by (simp add: cache1_def)
  from 1 2 3 show ?thesis by simp
qed

subsection \<open>C8: evicting an entry whose file is absent\<close>

text \<open>
  Claim C8 says that during eviction an already absent file counts as deleted: the entry
  leaves the index, the counters drop and no error is returned. \<^verbatim>\<open>evictLast\<close> updates
  the cache only when \<^verbatim>\<open>os.Remove\<close> returns \<^verbatim>\<open>nil\<close>, and \<^verbatim>\<open>os.Remove\<close> of an
  absent file returns an error. In the state that two puts of \<open>a\<close> reach (the entry is
  tracked, its file is gone) \<^verbatim>\<open>evictLast\<close> returns that error and the cache is unchanged,
  and so does every later \<^verbatim>\<open>Put\<close> that has to evict.
\<close>

theorem evict_absent_file_is_error:
  "(case Puts 1 framing_codec [(''a'', ''abcdefgh''), (''a'', ''ABCDEFGH'')] (cache0 False) disk0 of
      None \<Rightarrow> False
    | Some (es, c, dk) \<Rightarrow>
        es = [None, None] \<and> list_c c = [\<lparr>Key = ''a'', Size = 8, Path = ''d/a''\<rparr>]
        \<and> map_of (files dk) ''d/a'' = None
        \<and> evictLast c dk = (Some (OsError NotExist), c, dk)
        \<and> map_option fst (Put 1 framing_codec ''b'' ''12345678'' c dk)
            = Some (Some (OsError NotExist)))"
  by (simp add: eval_defs)

text \<open>
  Claim C8 as amended: during eviction an absent file is a deletion failure like any other.
  When the file of the last entry is not on disk, \<^verbatim>\<open>evictLast\<close> returns the error of
  \<^verbatim>\<open>os.Remove\<close>, and the index, the list, the counters and the disk are unchanged.
\<close>

theorem evictLast_absent_file:
  "list_c c \<noteq> [] \<Longrightarrow> map_of (files dk) (Path (last (list_c c))) = None \<Longrightarrow>
   evictLast c dk = (Some (OsError NotExist), c, dk)"
  by (simp add: evictLast_def Let_def os_Remove_def)

theorem evictLast_absent_file_witness:
  "list_c cache1 \<noteq> [] \<and> map_of (files disk0) (Path (last (list_c cache1))) = None
   \<and> evictLast cache1 disk0 = (Some (OsError NotExist), cache1, disk0)"
proof -
  have a: "list_c cache1 \<noteq> []" by (simp add: cache1_def)
  have b: "map_of (files disk0) (Path (last (list_c cache1))) = None"
    by (simp add: disk0_def)
  from evictLast_absent_file [OF a b] a b show ?thesis by simp
qed

subsection \<open>C9: Warmup, then Get\<close>



text \<open>
  A \<^verbatim>\<open>Get\<close> of the file's name instead, as the package's warm-up test has it, escapes
  the name once more and does not find a name that holds an escaped byte.
\<close>

lemma Warmup_then_Get_escaped_name:
  "fst (Get framing_codec ''io%2Fioutil''
     (snd (Warmup (cache0 False) (disk0\<lparr>files := [(''d/io%2Fioutil'', ''Package ioutil'')]\<rparr>)))
     (disk0\<lparr>files := [(''d/io%2Fioutil'', ''Package ioutil'')]\<rparr>)) = Inl ErrNotFound"
  by (simp add: eval_defs)

subsection \<open>C10: termination of a put\<close>

text \<open>
  Claim C10 says that every put returns, also from a state with an empty list and a
  non-zero \<open>sizeUsed\<close>. On an empty list \<^verbatim>\<open>evictLast\<close> returns \<^verbatim>\<open>nil\<close> and changes
  nothing, so the loop of \<^verbatim>\<open>validate\<close> runs forever once the list is empty and the
  condition still holds (lemma \<open>evict_loop_stuck\<close>). Putting a key twice leaves \<open>sizeUsed\<close>
  above the sum of the sizes, which makes such a state reachable: under a budget of ten
  bytes, after \<^verbatim>\<open>Put("a", "abcdef")\<close> and \<^verbatim>\<open>Put("a", "abc")\<close> the counter is 9 with
  one entry of 3 bytes, and \<^verbatim>\<open>Put("b", "123456789")\<close> evicts \<open>a\<close>, is left with the
  counter at 6 and no entry, and does not return: no bound on the loop is enough. From a
  state with exact counters \<^verbatim>\<open>Put\<close> does return (lemma \<open>Put_returns\<close>).
\<close>

theorem put_never_returns:
  "(case Puts 0 framing_codec [(''a'', ''abcdef''), (''a'', ''abc'')] (cache0 False) disk0 of
      None \<Rightarrow> False
    | Some (es, c, dk) \<Rightarrow>
        es = [None, None] \<and> list_c c = [\<lparr>Key = ''a'', Size = 3, Path = ''d/a''\<rparr>]
        \<and> sizeUsed c = 9 \<and> size_c c = 10
        \<and> (\<forall>fuel. Put fuel framing_codec ''b'' ''123456789'' c dk = None))"
proof -
  define c2 where "c2 = \<lparr>dir = ''d'', size_c = 10, cap = 40, sizeUsed = 9, capUsed = 2,
     list_c = [\<lparr>Key = ''a'', Size = 3, Path = ''d/a''\<rparr>],
     m_c = [''a'' \<mapsto> \<lparr>Key = ''a'', Size = 3, Path = ''d/a''\<rparr>], useDeflate = False\<rparr>"
  define dk2 where "dk2 = disk0\<lparr>files := [(''d/a'', ''abc'')]\<rparr>"
  define dk3 where "dk3 = disk0\<lparr>files := [(''d/a'', ''abc''), (''d/b'', ''123456789'')]\<rparr>"
  have puts: "Puts 0 framing_codec [(''a'', ''abcdef''), (''a'', ''abc'')] (cache0 False) disk0
      = Some ([None, None], c2, dk2)"
    by (simp add: eval_defs c2_def dk2_def)
  have wr: "writeFile framing_codec (dir c2) (escape ''b'')
      \<lparr>r_bytes = ''123456789'', r_err = None\<rparr> (useDeflate c2) dk2 = (Inr (''d/b'', 9), dk3)"
    by (simp add: eval_defs c2_def dk2_def dk3_def)
  have rm: "os_Remove ''d/a'' dk3 = (None, disk0\<lparr>files := [(''d/b'', ''123456789'')]\<rparr>)"
    by (simp add: eval_defs dk3_def)
  have "validate fuel ''d/b'' 9 c2 dk3 = None" for fuel
    by (rule validate_stuck [where x = "\<lparr>Key = ''a'', Size = 3, Path = ''d/a''\<rparr>"])
       (simp_all add: c2_def rm)
  then have stuck: "Put fuel framing_codec ''b'' ''123456789'' c2 dk2 = None" for fuel
    by (simp add: Put_def PutReader_def wr)
  show ?thesis
    unfolding puts by (simp add: stuck) (simp add: c2_def)
qed

end
